theory Spec2Isabelle
  imports Complex_Main "HOL-Library.Word" "HOL-Library.Signed_Division"
begin

section \<open>Data model of package lottery\<close>

type_synonym u8 = "8 word"
type_synonym u32 = "32 word"
type_synonym u64 = "64 word"

text \<open>
  \<^verbatim>\<open>db.Bet\<close>: the two fields the lottery reads. \<open>Index\<close> is a \<^verbatim>\<open>uint64\<close>, the
  cumulative upper bound of the tickets of the bet.
\<close>

record Bet =
  PublicKey :: string
  Index :: u64

text \<open>
  \<^verbatim>\<open>db.Winner\<close>. It shares the field name \<open>PublicKey\<close> with \<^verbatim>\<open>db.Bet\<close>; below,
  \<open>Bet.PublicKey\<close> and \<open>Winner.PublicKey\<close> tell the two apart.
\<close>

record Winner =
  PublicKey :: string
  Ticket :: u64
  Prizes :: u64
  Expired :: bool

text \<open>\<^verbatim>\<open>chainrpc.BlockEpoch\<close>: the hash bytes and the \<^verbatim>\<open>uint32\<close> height.\<close>

record BlockEpoch =
  Hash :: "u8 list"
  Height :: u32

subsection \<open>getPublicKey: the binary search\<close>

text \<open>
  \<^verbatim>\<open>left\<close>, \<^verbatim>\<open>mid\<close> and \<^verbatim>\<open>right\<close> are Go \<^verbatim>\<open>int\<close>s: \<^verbatim>\<open>right\<close> becomes \<open>-1\<close> when
  the search leaves the list on the left, so they are modelled as \<open>int\<close>. Go's \<^verbatim>\<open>/\<close>
  truncates towards zero (\<open>sdiv\<close>). An index outside the slice panics: \<open>None\<close>.
\<close>

definition bet_at :: "Bet list \<Rightarrow> int \<Rightarrow> Bet option" where
  "bet_at bets k = (if 0 \<le> k \<and> k < int (length bets) then Some (bets ! nat k) else None)"

lemma sdiv2_bounds:
  fixes l r :: int
  assumes "l \<le> r"
  shows "l \<le> (l + r) sdiv 2 \<and> (l + r) sdiv 2 \<le> r"
proof (cases "0 \<le> l + r")
  case True
  then have "(l + r) sdiv 2 = (l + r) div 2"
    by (simp add: signed_divide_int_def sgn_if)
  with assms show ?thesis by linarith
next
  case False
  then have "(l + r) sdiv 2 = - ((- (l + r)) div 2)"
    by (simp add: signed_divide_int_def sgn_if)
  with assms False show ?thesis by linarith
qed

function getPublicKey_loop :: "Bet list \<Rightarrow> u64 \<Rightarrow> int \<Rightarrow> int \<Rightarrow> string option" where
  "getPublicKey_loop bets winningTicket left right =
     (if left \<le> right then
        (let mid = (left + right) sdiv 2 in
         case bet_at bets mid of
           None \<Rightarrow> None
         | Some b \<Rightarrow>
             if Index b = winningTicket then Some (Bet.PublicKey b)
             else if Index b < winningTicket
               then getPublicKey_loop bets winningTicket (mid + 1) right
               else getPublicKey_loop bets winningTicket left (mid - 1))
      else map_option Bet.PublicKey (bet_at bets left))"
  by pat_completeness auto
termination
proof (relation "measure (\<lambda>(bets, t, l, r). nat (r - l + 1))", goal_cases)
  case 1
  show ?case by simp
next
  case (2 bets t l r mid b)
  then show ?case using sdiv2_bounds [of l r] by simp
next
  case (3 bets t l r mid b)
  then show ?case using sdiv2_bounds [of l r] by simp
qed

declare getPublicKey_loop.simps [simp del]

definition getPublicKey :: "Bet list \<Rightarrow> u64 \<Rightarrow> string option" where
  "getPublicKey bets winningTicket =
     getPublicKey_loop bets winningTicket 0 (int (length bets) - 1)"

subsection \<open>Prize pool percentages\<close>

text \<open>
  The constants are \<^verbatim>\<open>float64\<close>; each is a dyadic rational that \<^verbatim>\<open>float64\<close> represents
  exactly, so they are modelled as rationals.
\<close>

definition first :: rat where "first = 50"
definition second :: rat where "second = first / 2"
definition third :: rat where "third = second / 2"
definition fourth :: rat where "fourth = third / 2"
definition fifth :: rat where "fifth = fourth / 2"
definition sixth :: rat where "sixth = fifth / 2"
definition seventh :: rat where "seventh = sixth / 2"
definition eighth :: rat where "eighth = seventh / 2"
definition btryFee :: rat where "btryFee = eighth"

definition prizes :: "rat list" where
  "prizes = [first, second, third, fourth, fifth, sixth, seventh, eighth]"

subsection \<open>getWinningTicket\<close>

text \<open>
  \<^verbatim>\<open>big.Int.Exp(x, y, m)\<close> of the Go library for an exponent \<open>y \<ge> 0\<close> (the exponent is a
  byte here): \<open>x ^ y mod |m|\<close>, the sign of \<open>m\<close> being ignored, and \<open>x ^ y\<close> when \<open>m = 0\<close>.
\<close>

definition big_Exp :: "int \<Rightarrow> int \<Rightarrow> int \<Rightarrow> int" where
  "big_Exp x y m = (if m = 0 then x ^ nat y else x ^ nat y mod \<bar>m\<bar>)"

text \<open>Reading a byte of the hash; an index outside the slice panics (\<open>None\<close>).\<close>

definition byte_at :: "u8 list \<Rightarrow> int \<Rightarrow> u8 option" where
  "byte_at hash k = (if 0 \<le> k \<and> k < int (length hash) then Some (hash ! nat k) else None)"

text \<open>
  \<^verbatim>\<open>int64(hash[i])\<close> zero-extends the byte (\<open>uint\<close>); \<^verbatim>\<open>int64(prizePool)\<close> reinterprets the
  \<^verbatim>\<open>uint64\<close> as two's complement (\<open>sint\<close>); \<^verbatim>\<open>result.Uint64()\<close> takes the low 64 bits of the
  non-negative result (\<open>word_of_int\<close>) and the final \<^verbatim>\<open>+ 1\<close> is \<^verbatim>\<open>uint64\<close> addition.
\<close>

definition getWinningTicket :: "u8 list \<Rightarrow> int \<Rightarrow> u64 \<Rightarrow> u64 option" where
  "getWinningTicket hash i prizePool =
     (case byte_at hash i of
        None \<Rightarrow> None
      | Some b1 \<Rightarrow>
          (case byte_at hash (i - 1) of
             None \<Rightarrow> None
           | Some b2 \<Rightarrow>
               (let num1 = uint b1;
                    num2 = uint b2;
                    result = big_Exp num1 num2 (sint prizePool)
                in Some (word_of_int result + 1))))"

subsection \<open>The prize of a tier\<close>

text \<open>
  \<^verbatim>\<open>float64(prizePool)\<close> for a non-negative integer: the nearest \<^verbatim>\<open>float64\<close>, ties to
  even. Below \<open>2 ^ 53\<close> the conversion is exact; above, the value keeps its 53 leading
  bits, \<open>float64_shift\<close> counting the bits that are rounded away.
\<close>

function float64_shift :: "int \<Rightarrow> nat" where
  "float64_shift n = (if n < 2 ^ 53 then 0 else Suc (float64_shift (n div 2)))"
  by pat_completeness auto
termination
  by (relation "measure (\<lambda>n. nat n)") auto

declare float64_shift.simps [simp del]

definition float64_of_int :: "int \<Rightarrow> int" where
  "float64_of_int n =
     (let e = float64_shift n; q = n div 2 ^ e; r = n mod 2 ^ e
      in if 2 * r > 2 ^ e \<or> (2 * r = 2 ^ e \<and> odd q) then (q + 1) * 2 ^ e else q * 2 ^ e)"

text \<open>\<^verbatim>\<open>math.Round\<close>: to the nearest integer, halves away from zero.\<close>

definition math_Round :: "rat \<Rightarrow> int" where
  "math_Round x = (if x < 0 then - \<lfloor>- x + 1 / 2\<rfloor> else \<lfloor>x + 1 / 2\<rfloor>)"

text \<open>
  \<^verbatim>\<open>uint64(math.Round((prize / 100) * float64(prizePool)))\<close>. For the eight constants of
  \<open>prizes\<close> the quotient \<^verbatim>\<open>prize / 100\<close> is a power of two (\<open>1/2\<close> to \<open>1/256\<close>), so the
  division and the product are exact in \<^verbatim>\<open>float64\<close> and rational arithmetic computes
  the same value; the result is at most \<open>2 ^ 63\<close> and fits a \<^verbatim>\<open>uint64\<close>.
\<close>

definition prize_amount :: "rat \<Rightarrow> u64 \<Rightarrow> u64" where
  "prize_amount prize prizePool =
     (let p = (prize / 100) * of_int (float64_of_int (uint prizePool))
      in word_of_int (math_Round p))"

subsection \<open>getWinners\<close>

text \<open>
  The loop over \<open>prizes\<close>, with the running index \<open>i\<close> into the hash and the slice of
  winners built so far. A panic of \<open>getWinningTicket\<close> or \<open>getPublicKey\<close> is \<open>None\<close>.
\<close>

fun getWinners_loop ::
  "rat list \<Rightarrow> u8 list \<Rightarrow> u64 \<Rightarrow> Bet list \<Rightarrow> int \<Rightarrow> Winner list \<Rightarrow> Winner list option" where
  "getWinners_loop [] blockHash prizePool bets i winners = Some winners"
| "getWinners_loop (prize # rest) blockHash prizePool bets i winners =
     (case getWinningTicket blockHash i prizePool of
        None \<Rightarrow> None
      | Some winningTicket \<Rightarrow>
          (case getPublicKey bets winningTicket of
             None \<Rightarrow> None
           | Some publicKey \<Rightarrow>
               getWinners_loop rest blockHash prizePool bets (i - 2)
                 (winners @ [\<lparr>PublicKey = publicKey, Ticket = winningTicket,
                               Prizes = prize_amount prize prizePool, Expired = False\<rparr>])))"

text \<open>
  The Go function returns \<^verbatim>\<open>([]db.Winner, error)\<close>; the error is \<^verbatim>\<open>nil\<close> on both of its
  return statements. The outer \<open>option\<close> is the panic.
\<close>

datatype error = ErrNoRows | Failure string | Wrap error string

definition getWinners ::
  "u8 list \<Rightarrow> u64 \<Rightarrow> Bet list \<Rightarrow> (Winner list \<times> error option) option" where
  "getWinners blockHash prizePool bets =
     (if length bets \<le> 0 then Some ([], None)
      else map_option (\<lambda>winners. (winners, None))
             (getWinners_loop prizes blockHash prizePool bets (int (length blockHash) - 1) []))"

section \<open>The collaborators and the effects of a draw\<close>

text \<open>\<^verbatim>\<open>errors.Is(err, sql.ErrNoRows)\<close>: looks through the wrappers.\<close>

fun is_ErrNoRows :: "error \<Rightarrow> bool" where
  "is_ErrNoRows ErrNoRows = True"
| "is_ErrNoRows (Failure msg) = False"
| "is_ErrNoRows (Wrap err msg) = is_ErrNoRows err"

type_synonym i64 = "64 word"

text \<open>
  The store, the lightning client and the Go runtime are outside this package. A
  \<open>world\<close> holds what they answer: each field is the result of the call of that name
  (\<open>Inl\<close> or \<open>Some\<close> is the error it returns). \<open>range_order\<close> is the order in which Go's
  \<^verbatim>\<open>range\<close> visits the keys of a map, which the runtime chooses: it is given the keys and
  returns them rearranged.
\<close>

record world =
  lnd_GetInfo :: "error + u32"
  Lotteries_GetNextHeight :: "error + u32"
  Lotteries_DeleteHeight :: "u32 \<Rightarrow> error option"
  Lotteries_AddHeight :: "u32 \<Rightarrow> error option"
  Bets_List :: "error + Bet list"
  Bets_GetPrizePool :: "error + u64"
  Bets_Reset :: "error option"
  Winners_Add :: "u32 \<Rightarrow> Winner list \<Rightarrow> error option"
  Winners_ExpirePrizes :: "u32 \<Rightarrow> error + int"
  Notifications_GetChatID :: "string \<Rightarrow> error + i64"
  Notifications_Expire :: "error option"
  range_order :: "string list \<Rightarrow> string list"

text \<open>
  What the package does to the outside, in the order it does it: the writing calls it
  makes on the store (whether or not the call then reports an error), the send on
  \<^verbatim>\<open>winnersCh\<close>, the notifications and the log lines. \<open>Notify chatID prizes\<close> is
  \<^verbatim>\<open>l.notifier.Notify(chatID, fmt.Sprintf(notification.Congratulations, prizes))\<close>.
\<close>

datatype effect =
    DeleteHeight u32
  | AddHeight u32
  | BetsReset
  | WinnersAdd u32 "Winner list"
  | ChanSend "Winner list"
  | Notify i64 u64
  | ExpirePrizes u32
  | NotificationsExpire
  | LogError error
  | LogNextHeight u32
  | LogExpired int

text \<open>How a call ends: it returns (\<^verbatim>\<open>nil\<close> or an error) or it panics.\<close>

datatype outcome = Return "error option" | Panic

subsection \<open>notifyWinners\<close>

text \<open>
  The first loop: \<open>winnersMap\<close> after the winners seen so far. The local variable
  \<^verbatim>\<open>prizes\<close> of the source hides the package's array of that name; here it is \<open>prizes'\<close>.
\<close>

fun aggregate :: "Winner list \<Rightarrow> (string \<rightharpoonup> u64) \<Rightarrow> (string \<rightharpoonup> u64)" where
  "aggregate [] winnersMap = winnersMap"
| "aggregate (winner # rest) winnersMap =
     aggregate rest
       (case winnersMap (PublicKey winner) of
          Some prizes' \<Rightarrow> winnersMap(PublicKey winner \<mapsto> prizes' + Prizes winner)
        | None \<Rightarrow> winnersMap(PublicKey winner \<mapsto> Prizes winner))"

text \<open>The body of the second loop, for one entry of the map.\<close>

definition notify_entry :: "world \<Rightarrow> string \<Rightarrow> u64 \<Rightarrow> effect list" where
  "notify_entry w publicKey prizes' =
     (case Notifications_GetChatID w publicKey of
        Inl err \<Rightarrow>
          if \<not> is_ErrNoRows err then [LogError (Wrap err ''getting telegram chat ID'')] else []
      | Inr chatID \<Rightarrow> [Notify chatID prizes'])"

fun notify_loop :: "world \<Rightarrow> (string \<rightharpoonup> u64) \<Rightarrow> string list \<Rightarrow> effect list" where
  "notify_loop w winnersMap [] = []"
| "notify_loop w winnersMap (publicKey # rest) =
     (case winnersMap publicKey of
        None \<Rightarrow> []
      | Some prizes' \<Rightarrow> notify_entry w publicKey prizes') @ notify_loop w winnersMap rest"

definition notifyWinners :: "world \<Rightarrow> Winner list \<Rightarrow> effect list" where
  "notifyWinners w winners =
     notify_loop w (aggregate winners Map.empty)
       (range_order w (remdups (map PublicKey winners)))"

subsection \<open>raffle\<close>

definition raffle :: "world \<Rightarrow> u32 \<Rightarrow> BlockEpoch \<Rightarrow> effect list \<times> outcome" where
  "raffle w blocksDuration block =
     (case Bets_List w of
        Inl err \<Rightarrow> ([], Return (Some (Wrap err ''listing bets'')))
      | Inr bets \<Rightarrow>
          if length bets = 0 then ([], Return None)
          else
            (case Bets_GetPrizePool w of
               Inl err \<Rightarrow> ([], Return (Some err))
             | Inr prizePool \<Rightarrow>
                 (case Bets_Reset w of
                    Some err \<Rightarrow> ([BetsReset], Return (Some (Wrap err ''deleting bets'')))
                  | None \<Rightarrow>
                      (case getWinners (Hash block) prizePool bets of
                         None \<Rightarrow> ([BetsReset], Panic)
                       | Some (winners, Some err) \<Rightarrow>
                           ([BetsReset], Return (Some (Wrap err ''getting winners'')))
                       | Some (winners, None) \<Rightarrow>
                           (case Winners_Add w (Height block) winners of
                              Some err \<Rightarrow>
                                ([BetsReset, WinnersAdd (Height block) winners],
                                 Return (Some (Wrap err ''saving winners'')))
                            | None \<Rightarrow>
                                (let done = [BetsReset, WinnersAdd (Height block) winners,
                                             ChanSend winners] @ notifyWinners w winners;
                                     threshold = Height block - (blocksDuration * 3)
                                 in case Winners_ExpirePrizes w threshold of
                                      Inl err \<Rightarrow> (done @ [ExpirePrizes threshold], Return (Some err))
                                    | Inr expiredPrizes \<Rightarrow>
                                        (case Notifications_Expire w of
                                           Some err \<Rightarrow>
                                             (done @ [ExpirePrizes threshold, LogExpired expiredPrizes,
                                                      NotificationsExpire],
                                              Return (Some err))
                                         | None \<Rightarrow>
                                             (done @ [ExpirePrizes threshold, LogExpired expiredPrizes,
                                                      NotificationsExpire],
                                              Return None))))))))"

subsection \<open>Start\<close>

text \<open>
  The part of \<^verbatim>\<open>Start\<close> before the goroutine: the effects, and either the error returned
  or the target height the goroutine starts with.
\<close>

definition Start :: "world \<Rightarrow> u32 \<Rightarrow> effect list \<times> (error + u32)" where
  "Start w blocksDuration =
     (case lnd_GetInfo w of
        Inl err \<Rightarrow> ([], Inl err)
      | Inr blockHeight \<Rightarrow>
          (case Lotteries_GetNextHeight w of
             Inl err \<Rightarrow> ([], Inl err)
           | Inr nextHeight \<Rightarrow>
               if nextHeight = 0 \<or> blockHeight > nextHeight then
                 (case (if nextHeight \<noteq> 0 \<and> blockHeight > nextHeight
                        then ([DeleteHeight nextHeight], Lotteries_DeleteHeight w nextHeight)
                        else ([], None)) of
                    (deleted, Some err) \<Rightarrow> (deleted, Inl err)
                  | (deleted, None) \<Rightarrow>
                      (let nextHeight' = blockHeight + blocksDuration
                       in case Lotteries_AddHeight w nextHeight' of
                            Some err \<Rightarrow> (deleted @ [AddHeight nextHeight'], Inl err)
                          | None \<Rightarrow>
                              (deleted @ [AddHeight nextHeight', LogNextHeight nextHeight'],
                               Inr nextHeight')))
               else ([LogNextHeight nextHeight], Inr nextHeight)))"

text \<open>
  One iteration of the goroutine's loop, for the block received: the effects and the
  target height afterwards, or \<open>None\<close> when the raffle panicked (the goroutine dies with
  the process). \<^verbatim>\<open>slices.Reverse\<close> reverses the hash in place before the raffle reads it.
\<close>

definition watch_block :: "world \<Rightarrow> u32 \<Rightarrow> u32 \<Rightarrow> BlockEpoch \<Rightarrow> effect list \<times> u32 option" where
  "watch_block w blocksDuration nextHeight block =
     (if Height block \<noteq> nextHeight then ([], Some nextHeight)
      else
        (case raffle w blocksDuration (block\<lparr>Hash := rev (Hash block)\<rparr>) of
           (drawn, Panic) \<Rightarrow> (drawn, None)
         | (drawn, Return res) \<Rightarrow>
             (let logged = (case res of Some err \<Rightarrow> [LogError err] | None \<Rightarrow> []);
                  nextHeight' = nextHeight + blocksDuration;
                  added = AddHeight nextHeight' #
                    (case Lotteries_AddHeight w nextHeight' of
                       Some err \<Rightarrow> [LogError err]
                     | None \<Rightarrow> [])
              in (drawn @ logged @ added @ [LogNextHeight nextHeight'], Some nextHeight'))))"

text \<open>
  The loop itself never ends: it blocks on \<^verbatim>\<open>blocksCh\<close>. Its run on the blocks received
  so far, each with the answers of the world at that time.
\<close>

fun watch :: "u32 \<Rightarrow> u32 \<Rightarrow> (world \<times> BlockEpoch) list \<Rightarrow> effect list \<times> u32 option" where
  "watch blocksDuration nextHeight [] = ([], Some nextHeight)"
| "watch blocksDuration nextHeight ((w, block) # rest) =
     (case watch_block w blocksDuration nextHeight block of
        (effects, None) \<Rightarrow> (effects, None)
      | (effects, Some nextHeight') \<Rightarrow>
          (case watch blocksDuration nextHeight' rest of
             (later, final) \<Rightarrow> (effects @ later, final)))"

text \<open>
  A world in which every call succeeds, there is no bet, no participant has a chat and
  \<^verbatim>\<open>range\<close> visits the keys in the order given; the examples below change it field by field.
\<close>

definition quiet_world :: world where
  "quiet_world =
     \<lparr>lnd_GetInfo = Inr 0,
      Lotteries_GetNextHeight = Inr 0,
      Lotteries_DeleteHeight = (\<lambda>h. None),
      Lotteries_AddHeight = (\<lambda>h. None),
      Bets_List = Inr [],
      Bets_GetPrizePool = Inr 0,
      Bets_Reset = None,
      Winners_Add = (\<lambda>h ws. None),
      Winners_ExpirePrizes = (\<lambda>h. Inr 0),
      Notifications_GetChatID = (\<lambda>pk. Inl ErrNoRows),
      Notifications_Expire = None,
      range_order = (\<lambda>ks. ks)\<rparr>"

section \<open>The invariant of the bet list\<close>

text \<open>
  The bets of a round, as the store keeps them: sorted by \<open>Index\<close>, each bet owning the
  tickets above the \<open>Index\<close> of the bet before it and up to its own, the first bet
  starting at ticket 1 and the last one ending at the prize pool. Every bet owns at
  least one ticket, so the order is strict.
\<close>

definition partitions :: "Bet list \<Rightarrow> u64 \<Rightarrow> bool" where
  "partitions bets prizePool \<longleftrightarrow>
     bets \<noteq> [] \<and> sorted_wrt (<) (map Index bets) \<and> 0 < Index (hd bets) \<and>
     Index (last bets) = prizePool"

definition owns :: "Bet list \<Rightarrow> nat \<Rightarrow> u64 \<Rightarrow> bool" where
  "owns bets j ticket \<longleftrightarrow>
     j < length bets \<and> (if j = 0 then 0 else Index (bets ! (j - 1))) < ticket \<and>
     ticket \<le> Index (bets ! j)"

definition example_bets :: "Bet list" where
  "example_bets =
     [\<lparr>Bet.PublicKey = ''A'', Index = 50\<rparr>,
      \<lparr>Bet.PublicKey = ''B'', Index = 150\<rparr>,
      \<lparr>Bet.PublicKey = ''C'', Index = 1000\<rparr>]"

text \<open>
  The draw used as the example: the three bets \<open>A\<close>, \<open>B\<close> and \<open>C\<close> on a pool of 1000, a
  hash of 32 bytes whose last two are 3 and 5, and a chat known for \<open>A\<close> only.
\<close>

definition example_world :: world where
  "example_world =
     quiet_world\<lparr>Bets_List := Inr example_bets, Bets_GetPrizePool := Inr 1000,
       Notifications_GetChatID := (\<lambda>pk. if pk = ''A'' then Inr 7 else Inl ErrNoRows)\<rparr>"

definition example_block :: BlockEpoch where
  "example_block = \<lparr>Hash = replicate 30 0 @ [3, 5], Height = 100\<rparr>"

definition example_winners :: "Winner list" where
  "example_winners =
     [\<lparr>PublicKey = ''B'', Ticket = 126, Prizes = 500, Expired = False\<rparr>,
      \<lparr>PublicKey = ''A'', Ticket = 2, Prizes = 250, Expired = False\<rparr>,
      \<lparr>PublicKey = ''A'', Ticket = 2, Prizes = 125, Expired = False\<rparr>,
      \<lparr>PublicKey = ''A'', Ticket = 2, Prizes = 63, Expired = False\<rparr>,
      \<lparr>PublicKey = ''A'', Ticket = 2, Prizes = 31, Expired = False\<rparr>,
      \<lparr>PublicKey = ''A'', Ticket = 2, Prizes = 16, Expired = False\<rparr>,
      \<lparr>PublicKey = ''A'', Ticket = 2, Prizes = 8, Expired = False\<rparr>,
      \<lparr>PublicKey = ''A'', Ticket = 2, Prizes = 4, Expired = False\<rparr>]"

text \<open>What a participant won over all the tiers of a draw, as a \<^verbatim>\<open>uint64\<close> sum.\<close>

definition total_prizes :: "Winner list \<Rightarrow> string \<Rightarrow> u64" where
  "total_prizes winners publicKey =
     sum_list (map Prizes (filter (\<lambda>winner. PublicKey winner = publicKey) winners))"

fun is_Notify :: "effect \<Rightarrow> bool" where
  "is_Notify (Notify chatID amount) = True"
| "is_Notify e = False"

text \<open>Eight winners among which \<open>A\<close> has the first and the third tier.\<close>

definition two_tier_winners :: "Winner list" where
  "two_tier_winners =
     [\<lparr>PublicKey = ''A'', Ticket = 2, Prizes = 500, Expired = False\<rparr>,
      \<lparr>PublicKey = ''B'', Ticket = 126, Prizes = 250, Expired = False\<rparr>,
      \<lparr>PublicKey = ''A'', Ticket = 17, Prizes = 125, Expired = False\<rparr>,
      \<lparr>PublicKey = ''C'', Ticket = 151, Prizes = 63, Expired = False\<rparr>,
      \<lparr>PublicKey = ''C'', Ticket = 152, Prizes = 31, Expired = False\<rparr>,
      \<lparr>PublicKey = ''B'', Ticket = 51, Prizes = 16, Expired = False\<rparr>,
      \<lparr>PublicKey = ''C'', Ticket = 999, Prizes = 8, Expired = False\<rparr>,
      \<lparr>PublicKey = ''B'', Ticket = 150, Prizes = 4, Expired = False\<rparr>]"

text \<open>
  The ticket of tier \<open>k\<close> (from 0) as the windows of the hash give it: the base is the
  byte \<open>2 * k\<close> places before the last one, the exponent the byte before that.
\<close>

definition window_ticket :: "u8 list \<Rightarrow> nat \<Rightarrow> u64 \<Rightarrow> u64" where
  "window_ticket hash k prizePool =
     word_of_int (big_Exp (uint (hash ! (length hash - 1 - 2 * k)))
                          (uint (hash ! (length hash - 2 - 2 * k))) (sint prizePool)) + 1"

section \<open>The binary search finds the owner of a ticket\<close>

lemma Index_mono:
  assumes "sorted_wrt (<) (map Index bets)" "i < j" "j < length bets"
  shows "Index (bets ! i) < Index (bets ! j)"
  using sorted_wrt_nth_less [OF assms(1), of i j] assms(2,3) by simp

lemma getPublicKey_loop_lower_bound:
  assumes "sorted_wrt (<) (map Index bets)"
    and "0 \<le> l" and "r < int (length bets)" and "l \<le> r + 1"
    and "\<forall>k. int k < l \<longrightarrow> Index (bets ! k) < t"
    and "\<forall>k. r < int k \<and> k < length bets \<longrightarrow> t \<le> Index (bets ! k)"
    and "\<exists>k < length bets. t \<le> Index (bets ! k)"
  shows "\<exists>j < length bets. getPublicKey_loop bets t l r = Some (Bet.PublicKey (bets ! j))
           \<and> t \<le> Index (bets ! j) \<and> (\<forall>k < j. Index (bets ! k) < t)"
  using assms
proof (induction bets t l r rule: getPublicKey_loop.induct)
  case (1 bets t l r)
  show ?case
  proof (cases "l \<le> r")
    case False
    with "1.prems" have lr: "l = r + 1" by simp
    have "l < int (length bets)"
    proof (rule ccontr)
      assume "\<not> l < int (length bets)"
      with "1.prems"(5) have "\<forall>k < length bets. Index (bets ! k) < t" by auto
      with "1.prems"(7) show False by (auto simp: not_le [symmetric])
    qed
    with "1.prems"(2) have b: "bet_at bets l = Some (bets ! nat l)" and nl: "nat l < length bets"
      by (simp_all add: bet_at_def)
    have "t \<le> Index (bets ! nat l)" using "1.prems"(6) lr nl "1.prems"(2) by auto
    moreover have "\<forall>k < nat l. Index (bets ! k) < t" using "1.prems"(5) by auto
    moreover have "getPublicKey_loop bets t l r = Some (Bet.PublicKey (bets ! nat l))"
      using False b by (simp add: getPublicKey_loop.simps [of bets t l r])
    ultimately show ?thesis using nl by blast
  next
    case True
    define mid where "mid = (l + r) sdiv 2"
    have mb: "l \<le> mid" "mid \<le> r" using sdiv2_bounds [OF True] by (simp_all add: mid_def)
    with "1.prems" have m0: "0 \<le> mid" "mid < int (length bets)" by auto
    then have b: "bet_at bets mid = Some (bets ! nat mid)" and nm: "nat mid < length bets"
      by (simp_all add: bet_at_def)
    let ?b = "bets ! nat mid"
    consider (eq) "Index ?b = t" | (lt) "Index ?b < t" | (gt) "t < Index ?b"
      by (metis linorder_neqE)
    then show ?thesis
    proof cases
      case eq
      have "getPublicKey_loop bets t l r = Some (Bet.PublicKey ?b)"
        using True b eq by (simp add: getPublicKey_loop.simps [of bets t l r] mid_def [symmetric])
      moreover have "\<forall>k < nat mid. Index (bets ! k) < t"
        using Index_mono [OF "1.prems"(1) _ nm] eq by auto
      ultimately show ?thesis using nm eq by auto
    next
      case lt
      then have ne: "Index ?b \<noteq> t" by auto
      have step: "getPublicKey_loop bets t l r = getPublicKey_loop bets t (mid + 1) r"
        using True b lt ne by (simp add: getPublicKey_loop.simps [of bets t l r] mid_def [symmetric])
      have inv: "\<forall>k. int k < mid + 1 \<longrightarrow> Index (bets ! k) < t"
      proof (intro allI impI)
        fix k assume "int k < mid + 1"
        then have "k = nat mid \<or> k < nat mid" using m0 by auto
        then show "Index (bets ! k) < t"
          using Index_mono [OF "1.prems"(1) _ nm, of k] lt by auto
      qed
      have "\<exists>j < length bets. getPublicKey_loop bets t (mid + 1) r = Some (Bet.PublicKey (bets ! j))
           \<and> t \<le> Index (bets ! j) \<and> (\<forall>k < j. Index (bets ! k) < t)"
        using "1.IH"(1) [OF True mid_def b ne lt "1.prems"(1) _ "1.prems"(3) _ inv "1.prems"(6) "1.prems"(7)]
          lt m0 mb by auto
      with step show ?thesis by simp
    next
      case gt
      then have ne: "Index ?b \<noteq> t" and nlt: "\<not> Index ?b < t" by auto
      have step: "getPublicKey_loop bets t l r = getPublicKey_loop bets t l (mid - 1)"
        using True b ne nlt by (simp add: getPublicKey_loop.simps [of bets t l r] mid_def [symmetric])
      have inv: "\<forall>k. mid - 1 < int k \<and> k < length bets \<longrightarrow> t \<le> Index (bets ! k)"
      proof (intro allI impI)
        fix k assume k: "mid - 1 < int k \<and> k < length bets"
        then have "k = nat mid \<or> nat mid < k" using m0 by auto
        then show "t \<le> Index (bets ! k)"
          using Index_mono [OF "1.prems"(1), of "nat mid" k] gt k by auto
      qed
      have "\<exists>j < length bets. getPublicKey_loop bets t l (mid - 1) = Some (Bet.PublicKey (bets ! j))
           \<and> t \<le> Index (bets ! j) \<and> (\<forall>k < j. Index (bets ! k) < t)"
        using "1.IH"(2) [OF True mid_def b ne nlt "1.prems"(1) "1.prems"(2) _ _ "1.prems"(5) inv "1.prems"(7)]
          m0 mb by auto
      with step show ?thesis by simp
    qed
  qed
qed

lemma getPublicKey_lower_bound:
  assumes "partitions bets prizePool" and "ticket \<le> prizePool"
  shows "\<exists>j < length bets. getPublicKey bets ticket = Some (Bet.PublicKey (bets ! j))
           \<and> ticket \<le> Index (bets ! j) \<and> (\<forall>k < j. Index (bets ! k) < ticket)"
proof -
  from assms have ne: "bets \<noteq> []" and srt: "sorted_wrt (<) (map Index bets)"
    and lst: "ticket \<le> Index (last bets)"
    by (simp_all add: partitions_def)
  from ne lst have ex: "\<exists>k < length bets. ticket \<le> Index (bets ! k)"
    by (auto simp: last_conv_nth intro!: exI [of _ "length bets - 1"])
  show ?thesis
    unfolding getPublicKey_def
    using ex by (intro getPublicKey_loop_lower_bound [OF srt]) auto
qed

lemma lower_bound_owns:
  assumes "partitions bets prizePool" and "0 < ticket"
    and "j < length bets" and "ticket \<le> Index (bets ! j)"
    and "\<forall>k < j. Index (bets ! k) < ticket"
  shows "owns bets j ticket \<and> (\<forall>k. owns bets k ticket \<longrightarrow> k = j)
     \<and> find (\<lambda>b. ticket \<le> Index b) bets = Some (bets ! j)"
proof -
  from assms(1) have srt: "sorted_wrt (<) (map Index bets)"
    by (simp add: partitions_def)
  have own: "owns bets j ticket"
    using assms(2-5) by (auto simp: owns_def)
  have uniq: "k = j" if k: "owns bets k ticket" for k
  proof (rule ccontr)
    assume "k \<noteq> j"
    then consider "k < j" | "j < k" by linarith
    then show False
    proof cases
      case 1
      with assms(5) have "Index (bets ! k) < ticket" by simp
      with k show False by (auto simp: owns_def dest: leD)
    next
      case 2
      then have k0: "k \<noteq> 0" and kl: "k - 1 < length bets" using k by (auto simp: owns_def)
      from k k0 have lt: "Index (bets ! (k - 1)) < ticket" by (simp add: owns_def)
      have "Index (bets ! j) \<le> Index (bets ! (k - 1))"
      proof (cases "j = k - 1")
        case True then show ?thesis by simp
      next
        case False
        with 2 have "j < k - 1" by linarith
        from Index_mono [OF srt this kl] show ?thesis by simp
      qed
      with assms(4) lt show False by (meson leD le_less_trans)
    qed
  qed
  have "find (\<lambda>b. ticket \<le> Index b) bets = Some (bets ! j)"
    using assms(3-5) by (auto simp: find_Some_iff not_le intro!: exI [of _ j])
  with own uniq show ?thesis by blast
qed

text \<open>
  C1. If the bets are sorted by \<open>Index\<close> and partition the tickets \<open>1 .. prizePool\<close>,
  then for every ticket in that range \<open>getPublicKey\<close> does not panic (its last access
  \<^verbatim>\<open>bets[left]\<close> is inside the list) and returns the public key of the first bet whose
  \<open>Index\<close> is at least the ticket, which is the one bet that owns the ticket.
\<close>

theorem getPublicKey_owner:
  assumes "partitions bets prizePool" and "1 \<le> ticket" and "ticket \<le> prizePool"
  shows "\<exists>j. owns bets j ticket \<and> (\<forall>k. owns bets k ticket \<longrightarrow> k = j)
           \<and> find (\<lambda>b. ticket \<le> Index b) bets = Some (bets ! j)
           \<and> getPublicKey bets ticket = Some (Bet.PublicKey (bets ! j))"
proof -
  from assms(2) have pos: "0 < ticket"
    by (auto simp: word_greater_zero_iff)
  from getPublicKey_lower_bound [OF assms(1,3)] obtain j where
    j: "j < length bets" "getPublicKey bets ticket = Some (Bet.PublicKey (bets ! j))"
       "ticket \<le> Index (bets ! j)" "\<forall>k < j. Index (bets ! k) < ticket"
    by blast
  from lower_bound_owns [OF assms(1) pos j(1,3,4)] j(2) show ?thesis by blast
qed

theorem getPublicKey_owner_witness:
  "partitions example_bets 1000 \<and> (1 :: u64) \<le> 126 \<and> (126 :: u64) \<le> 1000
   \<and> (\<exists>j. owns example_bets j 126 \<and> (\<forall>k. owns example_bets k 126 \<longrightarrow> k = j)
         \<and> find (\<lambda>b. 126 \<le> Index b) example_bets = Some (example_bets ! j)
         \<and> getPublicKey example_bets 126 = Some (Bet.PublicKey (example_bets ! j)))"
proof -
  have p: "partitions example_bets 1000"
    by (simp add: partitions_def example_bets_def)
  have t: "(1 :: u64) \<le> 126" "(126 :: u64) \<le> 1000"
    by simp_all
  from getPublicKey_owner [OF p t] p t show ?thesis by blast
qed

section \<open>The winning ticket\<close>

lemma uint_as_sint:
  fixes P :: u64
  shows "uint P = (if 0 \<le> sint P then sint P else sint P + 2 ^ 64)"
proof -
  have u: "uint P = sint P mod 2 ^ 64"
    by (simp add: uint_sint take_bit_eq_mod)
  have lo: "- (2 ^ 63) \<le> sint P" using sint_ge [of P] by simp
  have hi: "sint P < 2 ^ 63" using sint_lt [of P] by simp
  show ?thesis
  proof (cases "0 \<le> sint P")
    case True
    with hi have "sint P mod 2 ^ 64 = sint P" by (intro mod_pos_pos_trivial) auto
    with u True show ?thesis by simp
  next
    case False
    have "(sint P + 2 ^ 64) mod 2 ^ 64 = sint P + 2 ^ 64"
      using lo False by (intro mod_pos_pos_trivial) auto
    then have "sint P mod 2 ^ 64 = sint P + 2 ^ 64" by simp
    with u False show ?thesis by simp
  qed
qed

lemma abs_sint: 
  fixes P :: u64
  assumes "P \<noteq> 0"
  shows "0 < \<bar>sint P\<bar> \<and> \<bar>sint P\<bar> \<le> uint P \<and> \<bar>sint P\<bar> \<le> 2 ^ 63"
proof -
  have lo: "- (2 ^ 63) \<le> sint P" using sint_ge [of P] by simp
  have hi: "sint P < 2 ^ 63" using sint_lt [of P] by simp
  have "uint P \<noteq> 0" using assms by (simp add: uint_0_iff)
  then have "sint P \<noteq> 0" using uint_as_sint [of P] by auto
  then show ?thesis using lo hi uint_as_sint [of P] by (auto split: if_splits)
qed

lemma sint_small:
  fixes P :: u64
  assumes "uint P \<le> 2 ^ 63"
  shows "\<bar>sint P\<bar> = uint P"
proof -
  have lo: "- (2 ^ 63) \<le> sint P" using sint_ge [of P] by simp
  have hi: "sint P < 2 ^ 63" using sint_lt [of P] by simp
  show ?thesis using lo hi assms uint_as_sint [of P] by (auto split: if_splits)
qed

lemma uint_of_int_succ:
  assumes "0 \<le> r" and "r < 2 ^ 63"
  shows "uint (word_of_int r + 1 :: u64) = r + 1"
proof -
  have "(r + 1) mod 2 ^ 64 = r + 1"
    using assms by (intro mod_pos_pos_trivial) auto
  moreover have "uint (word_of_int r + 1 :: u64) = (r + 1) mod 2 ^ 64"
    using uint_word_of_int [of "r + 1", where 'a = 64] by (simp add: take_bit_eq_mod)
  ultimately show ?thesis by simp
qed

lemma getWinningTicket_range:
  assumes "prizePool \<noteq> 0" and "1 \<le> i" and "i < int (length hash)"
  shows "\<exists>ticket. getWinningTicket hash i prizePool = Some ticket \<and> 1 \<le> ticket \<and> ticket \<le> prizePool"
proof -
  define x where "x = uint (hash ! nat i)"
  define y where "y = nat (uint (hash ! nat (i - 1)))"
  define m where "m = \<bar>sint prizePool\<bar>"
  define r where "r = x ^ y mod m"
  have m: "0 < m" "m \<le> uint prizePool" "m \<le> 2 ^ 63"
    using abs_sint [OF assms(1)] by (simp_all add: m_def)
  have r: "0 \<le> r" "r < m" using m(1) by (simp_all add: r_def)
  have gt: "getWinningTicket hash i prizePool = Some (word_of_int r + 1)"
    using assms m(1) by (simp add: getWinningTicket_def byte_at_def big_Exp_def Let_def
        x_def y_def m_def r_def)
  have u: "uint (word_of_int r + 1 :: u64) = r + 1"
    using r m by (intro uint_of_int_succ) auto
  have "uint (1 :: u64) \<le> uint (word_of_int r + 1 :: u64)" using u r by simp
  moreover have "uint (word_of_int r + 1 :: u64) \<le> uint prizePool" using u r m by simp
  ultimately show ?thesis using gt by (simp add: word_le_def)
qed

lemma getWinningTicket_value:
  assumes "prizePool \<noteq> 0" and "uint prizePool \<le> 2 ^ 63" and "1 \<le> i" and "i < int (length hash)"
  shows "\<exists>ticket. getWinningTicket hash i prizePool = Some ticket \<and>
    uint ticket = uint (hash ! nat i) ^ unat (hash ! nat (i - 1)) mod uint prizePool + 1"
proof -
  define x where "x = uint (hash ! nat i)"
  define y where "y = nat (uint (hash ! nat (i - 1)))"
  define m where "m = \<bar>sint prizePool\<bar>"
  define r where "r = x ^ y mod m"
  have m: "0 < m" "m \<le> uint prizePool" "m \<le> 2 ^ 63"
    using abs_sint [OF assms(1)] by (simp_all add: m_def)
  have mu: "m = uint prizePool" using sint_small [OF assms(2)] by (simp add: m_def)
  have r: "0 \<le> r" "r < m" using m(1) by (simp_all add: r_def)
  have gt: "getWinningTicket hash i prizePool = Some (word_of_int r + 1)"
    using assms m(1) by (simp add: getWinningTicket_def byte_at_def big_Exp_def Let_def
        x_def y_def m_def r_def)
  have u: "uint (word_of_int r + 1 :: u64) = r + 1"
    using r m by (intro uint_of_int_succ) auto
  show ?thesis using gt u by (simp add: r_def x_def y_def mu)
qed

text \<open>
  C2. The claim: for every prize pool \<open>P \<ge> 1\<close>, also one beyond the native signed range,
  the ticket is \<open>(base ^ exponent mod P) + 1\<close>. The code converts the \<^verbatim>\<open>uint64\<close> pool with
  \<^verbatim>\<open>int64(prizePool)\<close>, and \<^verbatim>\<open>Exp\<close> ignores the sign of the modulus: for the pool
  \<open>2 ^ 64 - 1\<close> the modulus becomes \<open>|-1| = 1\<close>, and with base 2 and exponent 1 the
  ticket is 1, where \<open>(2 ^ 1 mod (2 ^ 64 - 1)) + 1\<close> is 3. (\<open>getWinningTicket_range\<close> and
  \<open>getWinningTicket_value\<close> above: the ticket is in \<open>1 .. P\<close> for every \<open>P \<ge> 1\<close>, and
  it has the claimed value for every \<open>P\<close> from 1 to \<open>2 ^ 63\<close>.)
\<close>

theorem getWinningTicket_pool_above_int64:
  "getWinningTicket [1, 2] 1 18446744073709551615 = Some 1
   \<and> uint (2 :: u8) ^ unat (1 :: u8) mod uint (18446744073709551615 :: u64) + 1 = 3"
  by (simp add: getWinningTicket_def byte_at_def big_Exp_def)

section \<open>The example draw\<close>

lemma example_getWinners:
  "getWinners (replicate 30 0 @ [3, 5]) 1000 example_bets = Some (example_winners, None)"
  by code_simp

lemma example_raffle:
  "raffle example_world 144 example_block =
     ([BetsReset, WinnersAdd 100 example_winners, ChanSend example_winners, Notify 7 497,
       ExpirePrizes 4294966964, LogExpired 0, NotificationsExpire],
      Return None)"
  by code_simp

text \<open>
  C3. With a prize pool of 1000 and a hash that ends with the bytes 3 and 5, the first
  tier reads the last byte 5 as the base and the byte 3 before it as the exponent: the
  ticket is \<open>5 ^ 3 mod 1000 + 1 = 126\<close>, whatever the bytes before. Among the bets
  \<open>A\<close> up to 50, \<open>B\<close> up to 150 and \<open>C\<close> up to 1000, that ticket belongs to \<open>B\<close>, and
  \<open>B\<close> is the first winner of the draw on such a hash.
\<close>

theorem example_draw:
  "getWinningTicket (pre @ [3, 5]) (int (length (pre @ [3, 5])) - 1) 1000 = Some 126
   \<and> (5 :: int) ^ 3 mod 1000 + 1 = 126
   \<and> getPublicKey example_bets 126 = Some ''B''
   \<and> (\<exists>rest. getWinners (replicate 30 0 @ [3, 5]) 1000 example_bets =
         Some (\<lparr>PublicKey = ''B'', Ticket = 126, Prizes = 500, Expired = False\<rparr> # rest, None))"
proof -
  have "getWinningTicket (pre @ [3, 5]) (int (length (pre @ [3, 5])) - 1) 1000 = Some 126"
    by (simp add: getWinningTicket_def byte_at_def big_Exp_def nth_append)
  moreover have "getPublicKey example_bets 126 = Some ''B''"
    by (simp add: getPublicKey_def example_bets_def getPublicKey_loop.simps bet_at_def
        signed_divide_int_def)
  ultimately show ?thesis
    using example_getWinners by (simp add: example_winners_def)
qed

section \<open>The prize tiers\<close>

text \<open>
  C9. The eight percentages are 50, 25, 12.5, 6.25, 3.125, 1.5625, 0.78125 and 0.390625:
  the first is 50, each of the others is half the one before, and their sum is exactly
  99.609375.
\<close>

theorem prizes_geometric:
  "prizes = [50, 25, 12.5, 6.25, 3.125, 1.5625, 0.78125, 0.390625]
   \<and> hd prizes = 50 \<and> tl prizes = map (\<lambda>p. p / 2) (butlast prizes)
   \<and> length prizes = 8 \<and> sum_list prizes = 99.609375"
  by (simp add: prizes_def first_def second_def third_def fourth_def fifth_def sixth_def
      seventh_def eighth_def)

section \<open>The scheduler\<close>

text \<open>
  C4. On startup, with the chain at height \<open>H\<close>, the stored target \<open>T\<close> and the step \<open>D\<close>,
  and a store that carries out the writes asked of it: when \<open>T\<close> is unset (0) the target
  \<open>H + D\<close> is stored; when \<open>T\<close> is set and \<open>H > T\<close> the stale target is deleted and
  \<open>H + D\<close> is stored; otherwise nothing is written and the target stays \<open>T\<close>. The sum
  \<open>H + D\<close> is the \<^verbatim>\<open>uint32\<close> sum of the code. The witness has the two cases of the claim:
  \<open>T = 100\<close>, \<open>D = 50\<close>, \<open>H = 100\<close> keeps 100, and \<open>H = 151\<close> deletes 100 and stores 201.
\<close>

theorem Start_target:
  assumes "lnd_GetInfo w = Inr H" and "Lotteries_GetNextHeight w = Inr T"
    and "Lotteries_DeleteHeight w T = None" and "Lotteries_AddHeight w (H + D) = None"
  shows "Start w D =
     (if T = 0 then ([AddHeight (H + D), LogNextHeight (H + D)], Inr (H + D))
      else if T < H then
        ([DeleteHeight T, AddHeight (H + D), LogNextHeight (H + D)], Inr (H + D))
      else ([LogNextHeight T], Inr T))"
  using assms by (simp add: Start_def Let_def)

theorem Start_target_witness:
  "Start (quiet_world\<lparr>lnd_GetInfo := Inr 100, Lotteries_GetNextHeight := Inr 100\<rparr>) 50 =
     ([LogNextHeight 100], Inr 100)
   \<and> Start (quiet_world\<lparr>lnd_GetInfo := Inr 151, Lotteries_GetNextHeight := Inr 100\<rparr>) 50 =
     ([DeleteHeight 100, AddHeight 201, LogNextHeight 201], Inr 201)
   \<and> Start (quiet_world\<lparr>lnd_GetInfo := Inr 100, Lotteries_GetNextHeight := Inr 0\<rparr>) 50 =
     ([AddHeight 150, LogNextHeight 150], Inr 150)"
  using Start_target [of "quiet_world\<lparr>lnd_GetInfo := Inr 100, Lotteries_GetNextHeight := Inr 100\<rparr>" 100 100 50]
    Start_target [of "quiet_world\<lparr>lnd_GetInfo := Inr 151, Lotteries_GetNextHeight := Inr 100\<rparr>" 151 100 50]
    Start_target [of "quiet_world\<lparr>lnd_GetInfo := Inr 100, Lotteries_GetNextHeight := Inr 0\<rparr>" 100 0 50]
  by (simp add: quiet_world_def)

text \<open>
  C5. When the block received is at the target height and the raffle returns, with
  \<^verbatim>\<open>nil\<close> or with an error, the loop logs the error if there is one, asks the store to
  add the target \<open>nextHeight + D\<close> (an error of that call is logged too) and goes on
  with that target: the next blocks are handled by the same loop, whatever the raffle
  returned.
\<close>

theorem watch_block_advances:
  assumes "Height block = nextHeight"
    and "raffle w D (block\<lparr>Hash := rev (Hash block)\<rparr>) = (drawn, Return res)"
  shows "watch_block w D nextHeight block =
           (drawn @ (case res of Some err \<Rightarrow> [LogError err] | None \<Rightarrow> [])
              @ [AddHeight (nextHeight + D)]
              @ (case Lotteries_AddHeight w (nextHeight + D) of
                   Some err \<Rightarrow> [LogError err] | None \<Rightarrow> [])
              @ [LogNextHeight (nextHeight + D)],
            Some (nextHeight + D))
         \<and> watch D nextHeight ((w, block) # later) =
             (fst (watch_block w D nextHeight block) @ fst (watch D (nextHeight + D) later),
              snd (watch D (nextHeight + D) later))"
  using assms by (simp add: watch_block_def Let_def split: prod.splits)

theorem watch_block_advances_witness:
  "Height \<lparr>Hash = replicate 32 0, Height = 100\<rparr> = 100
   \<and> raffle (quiet_world\<lparr>Bets_List := Inl (Failure ''unreachable'')\<rparr>) 50
        (\<lparr>Hash = replicate 32 0, Height = 100\<rparr>\<lparr>Hash := rev (Hash \<lparr>Hash = replicate 32 0, Height = 100\<rparr>)\<rparr>) =
       ([], Return (Some (Wrap (Failure ''unreachable'') ''listing bets'')))
   \<and> watch_block (quiet_world\<lparr>Bets_List := Inl (Failure ''unreachable'')\<rparr>) 50 100
        \<lparr>Hash = replicate 32 0, Height = 100\<rparr> =
       ([LogError (Wrap (Failure ''unreachable'') ''listing bets''), AddHeight 150,
         LogNextHeight 150], Some 150)"
proof -
  let ?w = "quiet_world\<lparr>Bets_List := Inl (Failure ''unreachable'')\<rparr>"
  let ?b = "\<lparr>Hash = replicate 32 (0 :: u8), Height = 100\<rparr>"
  have r: "raffle ?w 50 (?b\<lparr>Hash := rev (Hash ?b)\<rparr>) =
      ([], Return (Some (Wrap (Failure ''unreachable'') ''listing bets'')))"
    by (simp add: raffle_def quiet_world_def)
  have h: "Height ?b = 100" by simp
  from watch_block_advances [OF h r] r show ?thesis
    by (simp add: quiet_world_def)
qed


section \<open>A draw without bets\<close>

text \<open>
  C6. When the store lists no bet, the raffle returns \<^verbatim>\<open>nil\<close> and has no effect: no bet is
  reset, no winner is added, nothing is sent on the channel and nobody is notified. The
  loop then adds the next target and goes on with it.
\<close>

theorem raffle_empty_bets:
  assumes "Bets_List w = Inr []"
  shows "raffle w D block = ([], Return None)
         \<and> watch_block w D (Height block) block =
             ([AddHeight (Height block + D)]
                @ (case Lotteries_AddHeight w (Height block + D) of
                     Some err \<Rightarrow> [LogError err] | None \<Rightarrow> [])
                @ [LogNextHeight (Height block + D)],
              Some (Height block + D))"
  using assms by (simp add: raffle_def watch_block_def Let_def)

theorem raffle_empty_bets_witness:
  "Bets_List quiet_world = Inr []
   \<and> raffle quiet_world 50 \<lparr>Hash = replicate 32 0, Height = 100\<rparr> = ([], Return None)
   \<and> watch_block quiet_world 50 100 \<lparr>Hash = replicate 32 0, Height = 100\<rparr> =
       ([AddHeight 150, LogNextHeight 150], Some 150)"
proof -
  have b: "Bets_List quiet_world = Inr []" by (simp add: quiet_world_def)
  from raffle_empty_bets [OF b, of 50 "\<lparr>Hash = replicate 32 0, Height = 100\<rparr>"] b
  show ?thesis by (simp add: quiet_world_def)
qed


section \<open>The expiry threshold\<close>

lemma notify_entry_no_ExpirePrizes:
  "ExpirePrizes t \<notin> set (notify_entry w k p)"
  by (simp add: notify_entry_def split: sum.splits)

lemma notify_loop_no_ExpirePrizes:
  "ExpirePrizes t \<notin> set (notify_loop w m ks)"
  by (induction ks) (simp_all add: notify_entry_no_ExpirePrizes split: option.splits)

lemma raffle_ExpirePrizes:
  assumes "raffle w D block = (effects, res)" and "ExpirePrizes threshold \<in> set effects"
  shows "threshold = Height block - D * 3"
  using assms
  by (auto simp: raffle_def Let_def notifyWinners_def
      notify_loop_no_ExpirePrizes split: sum.splits option.splits if_splits prod.splits)

lemma u32_sub_wraps:
  fixes H T :: u32
  assumes "H < T"
  shows "uint (H - T) = uint H + 2 ^ 32 - uint T \<and> H < H - T"
proof -
  have lt: "uint H < uint T" using assms by (simp add: word_less_def)
  have b: "0 \<le> uint H" "uint T < 2 ^ 32" using uint_lt2p [of T] by simp_all
  have "uint (H - T) = (uint H - uint T) mod 2 ^ 32"
    by (simp add: uint_word_ariths take_bit_eq_mod)
  also have "\<dots> = (uint H - uint T + 2 ^ 32) mod 2 ^ 32" by simp
  also have "\<dots> = uint H - uint T + 2 ^ 32"
    using lt b by - (rule mod_pos_pos_trivial; linarith)
  finally have u: "uint (H - T) = uint H + 2 ^ 32 - uint T" by simp
  with b have "uint H < uint (H - T)" by simp
  with u show ?thesis by (simp add: word_less_def)
qed


text \<open>
  C10. The threshold given to \<^verbatim>\<open>ExpirePrizes\<close> is \<^verbatim>\<open>block.Height - blocksDuration*3\<close> in
  \<^verbatim>\<open>uint32\<close> arithmetic. When the height is below that product the subtraction wraps:
  the threshold is the height plus \<open>2 ^ 32\<close> minus the product, which is above the
  height of the block, not three cycles below it. The product is the \<^verbatim>\<open>uint32\<close> product
  of the code; it is three times the step whenever that is below \<open>2 ^ 32\<close>.
\<close>

theorem raffle_expiry_threshold_wraps:
  assumes "raffle w D block = (effects, res)" and "ExpirePrizes threshold \<in> set effects"
    and "Height block < D * 3"
  shows "threshold = Height block - D * 3
         \<and> uint threshold = uint (Height block) + 2 ^ 32 - uint (D * 3)
         \<and> Height block < threshold
         \<and> (3 * uint D < 2 ^ 32 \<longrightarrow> uint threshold = uint (Height block) + 2 ^ 32 - 3 * uint D)"
proof -
  have t: "threshold = Height block - D * 3"
    by (rule raffle_ExpirePrizes [OF assms(1,2)])
  have m: "uint (D * 3) = 3 * uint D" if "3 * uint D < 2 ^ 32"
  proof -
    have "uint (D * 3) = (uint D * 3) mod 2 ^ 32"
      by (simp add: uint_word_ariths take_bit_eq_mod)
    also have "\<dots> = uint D * 3" using that by (intro mod_pos_pos_trivial) auto
    finally show ?thesis by simp
  qed
  from u32_sub_wraps [OF assms(3)] t m show ?thesis by simp
qed

theorem raffle_expiry_threshold_wraps_witness:
  "raffle example_world 144 example_block =
     ([BetsReset, WinnersAdd 100 example_winners, ChanSend example_winners, Notify 7 497,
       ExpirePrizes 4294966964, LogExpired 0, NotificationsExpire],
      Return None)
   \<and> Height example_block < (144 :: u32) * 3
   \<and> uint (4294966964 :: u32) = uint (Height example_block) + 2 ^ 32 - uint ((144 :: u32) * 3)
   \<and> Height example_block < 4294966964"
proof -
  have m: "ExpirePrizes 4294966964 \<in>
      set [BetsReset, WinnersAdd 100 example_winners, ChanSend example_winners, Notify 7 497,
           ExpirePrizes 4294966964, LogExpired 0, NotificationsExpire]"
    by simp
  have h: "Height example_block < (144 :: u32) * 3"
    by (simp add: example_block_def)
  from raffle_expiry_threshold_wraps [OF example_raffle m h] example_raffle h
  show ?thesis by simp
qed

section \<open>Notifications\<close>

lemma total_prizes_Cons:
  "total_prizes (x # xs) pk =
     (if PublicKey x = pk then Prizes x + total_prizes xs pk else total_prizes xs pk)"
  by (simp add: total_prizes_def)

lemma total_prizes_absent:
  "pk \<notin> PublicKey ` set winners \<Longrightarrow> total_prizes winners pk = 0"
  by (induction winners) (auto simp: total_prizes_def)

lemma aggregate_lookup:
  "aggregate winners m pk =
     (if pk \<in> PublicKey ` set winners
      then Some ((case m pk of Some v \<Rightarrow> v | None \<Rightarrow> 0) + total_prizes winners pk)
      else m pk)"
proof (induction winners arbitrary: m)
  case Nil
  then show ?case by simp
next
  case (Cons x xs)
  show ?case
    by (simp add: Cons.IH total_prizes_Cons total_prizes_absent split: option.splits)
qed

lemma aggregate_empty:
  "aggregate winners Map.empty pk =
     (if pk \<in> PublicKey ` set winners then Some (total_prizes winners pk) else None)"
  by (simp add: aggregate_lookup)

lemma notify_loop_concat:
  assumes "set ks \<subseteq> PublicKey ` set winners"
  shows "notify_loop w (aggregate winners Map.empty) ks =
     concat (map (\<lambda>pk. notify_entry w pk (total_prizes winners pk)) ks)"
  using assms by (induction ks) (auto simp: aggregate_empty)

lemma notify_entry_cases:
  "length (notify_entry w pk a) \<le> 1"
  "Notifications_GetChatID w pk = Inr chatID \<Longrightarrow> notify_entry w pk a = [Notify chatID a]"
  "Notifications_GetChatID w pk = Inl err \<Longrightarrow> is_ErrNoRows err \<Longrightarrow> notify_entry w pk a = []"
  "Notifications_GetChatID w pk = Inl err \<Longrightarrow> \<not> is_ErrNoRows err \<Longrightarrow>
     notify_entry w pk a = [LogError (Wrap err ''getting telegram chat ID'')]"
  by (simp_all add: notify_entry_def split: sum.splits)

lemma length_filter_Notify:
  "length (filter is_Notify (concat (map (\<lambda>pk. notify_entry w pk (f pk)) ks))) =
     length (filter (\<lambda>pk. \<exists>chatID. Notifications_GetChatID w pk = Inr chatID) ks)"
  by (induction ks) (auto simp: notify_entry_def split: sum.splits)

lemma total_prizes_unat:
  assumes "(\<Sum>x\<leftarrow>filter (\<lambda>x. PublicKey x = pk) winners. unat (Prizes x)) < 2 ^ 64"
  shows "unat (total_prizes winners pk) =
     (\<Sum>x\<leftarrow>filter (\<lambda>x. PublicKey x = pk) winners. unat (Prizes x))"
  using assms
proof (induction winners)
  case Nil
  then show ?case by (simp add: total_prizes_def)
next
  case (Cons x xs)
  show ?case
  proof (cases "PublicKey x = pk")
    case False
    with Cons show ?thesis by (simp add: total_prizes_Cons)
  next
    case True
    let ?r = "\<Sum>x\<leftarrow>filter (\<lambda>x. PublicKey x = pk) xs. unat (Prizes x)"
    from Cons.prems True have b: "unat (Prizes x) + ?r < 2 ^ 64" by simp
    then have "?r < 2 ^ 64" by simp
    from Cons.IH [OF this] have ih: "unat (total_prizes xs pk) = ?r" .
    have "unat (Prizes x + total_prizes xs pk) = (unat (Prizes x) + ?r) mod 2 ^ 64"
      by (simp add: unat_word_ariths ih)
    with b True show ?thesis by (simp add: total_prizes_Cons)
  qed
qed

text \<open>
  C8. \<^verbatim>\<open>range\<close> visits every key of \<open>winnersMap\<close> once, in an order of its choosing. Then
  the effects of \<open>notifyWinners\<close> are, participant by participant, those of one
  \<open>notify_entry\<close> with the sum of the prizes of that participant over all the tiers: one
  message with that sum for a participant with a chat, nothing at all (no message, no
  log line) when the chat is not found. So there are as many messages as participants
  with a chat, one each. The sum is the \<^verbatim>\<open>uint64\<close> sum of the code, which is the sum of
  the numbers whenever that fits 64 bits. In the witness \<open>A\<close> wins two of the eight
  tiers, 500 and 125, and gets the one message, with 625.
\<close>

theorem notifyWinners_aggregates:
  assumes "distinct (range_order w (remdups (map PublicKey winners)))"
    and "set (range_order w (remdups (map PublicKey winners))) = PublicKey ` set winners"
  shows "notifyWinners w winners =
           concat (map (\<lambda>pk. notify_entry w pk (total_prizes winners pk))
                     (range_order w (remdups (map PublicKey winners))))
         \<and> length (filter is_Notify (notifyWinners w winners)) =
             card {pk \<in> PublicKey ` set winners. \<exists>chatID. Notifications_GetChatID w pk = Inr chatID}
         \<and> (\<forall>pk chatID amount. Notifications_GetChatID w pk = Inr chatID \<longrightarrow>
               notify_entry w pk amount = [Notify chatID amount])
         \<and> (\<forall>pk err amount. Notifications_GetChatID w pk = Inl err \<and> is_ErrNoRows err \<longrightarrow>
               notify_entry w pk amount = [])
         \<and> (\<forall>pk. (\<Sum>x\<leftarrow>filter (\<lambda>x. PublicKey x = pk) winners. unat (Prizes x)) < 2 ^ 64 \<longrightarrow>
               unat (total_prizes winners pk) =
                 (\<Sum>x\<leftarrow>filter (\<lambda>x. PublicKey x = pk) winners. unat (Prizes x)))"
proof -
  let ?ks = "range_order w (remdups (map PublicKey winners))"
  have eq: "notifyWinners w winners =
      concat (map (\<lambda>pk. notify_entry w pk (total_prizes winners pk)) ?ks)"
    unfolding notifyWinners_def using assms(2) by (intro notify_loop_concat) simp
  have "length (filter is_Notify (notifyWinners w winners)) =
      length (filter (\<lambda>pk. \<exists>chatID. Notifications_GetChatID w pk = Inr chatID) ?ks)"
    by (simp only: eq length_filter_Notify)
  also have "\<dots> = card (set (filter (\<lambda>pk. \<exists>chatID. Notifications_GetChatID w pk = Inr chatID) ?ks))"
    using assms(1) by (intro distinct_card [symmetric] distinct_filter)
  also have "set (filter (\<lambda>pk. \<exists>chatID. Notifications_GetChatID w pk = Inr chatID) ?ks) =
      {pk \<in> PublicKey ` set winners. \<exists>chatID. Notifications_GetChatID w pk = Inr chatID}"
    using assms(2) by auto
  finally have cnt: "length (filter is_Notify (notifyWinners w winners)) =
      card {pk \<in> PublicKey ` set winners. \<exists>chatID. Notifications_GetChatID w pk = Inr chatID}" .
  from eq cnt show ?thesis
    by (simp add: notify_entry_cases total_prizes_unat)
qed

theorem notifyWinners_aggregates_witness:
  "distinct (range_order example_world (remdups (map PublicKey two_tier_winners)))
   \<and> set (range_order example_world (remdups (map PublicKey two_tier_winners))) =
       PublicKey ` set two_tier_winners
   \<and> filter (\<lambda>x. PublicKey x = ''A'') two_tier_winners =
       [\<lparr>PublicKey = ''A'', Ticket = 2, Prizes = 500, Expired = False\<rparr>,
        \<lparr>PublicKey = ''A'', Ticket = 17, Prizes = 125, Expired = False\<rparr>]
   \<and> total_prizes two_tier_winners ''A'' = 625
   \<and> notifyWinners example_world two_tier_winners = [Notify 7 625]"
proof -
  have d: "distinct (range_order example_world (remdups (map PublicKey two_tier_winners)))"
    by (simp add: example_world_def quiet_world_def)
  have s: "set (range_order example_world (remdups (map PublicKey two_tier_winners))) =
      PublicKey ` set two_tier_winners"
    by (simp add: example_world_def quiet_world_def)
  have o: "range_order example_world (remdups (map PublicKey two_tier_winners)) = [''A'', ''C'', ''B'']"
    by (simp add: example_world_def quiet_world_def two_tier_winners_def)
  have t: "total_prizes two_tier_winners ''A'' = 625"
    by (simp add: total_prizes_def two_tier_winners_def)
  have n: "notify_entry example_world ''A'' 625 = [Notify 7 625]"
      "\<And>a. notify_entry example_world ''B'' a = []" "\<And>a. notify_entry example_world ''C'' a = []"
    by (simp_all add: notify_entry_def example_world_def quiet_world_def)
  have f: "filter (\<lambda>x. PublicKey x = ''A'') two_tier_winners =
       [\<lparr>PublicKey = ''A'', Ticket = 2, Prizes = 500, Expired = False\<rparr>,
        \<lparr>PublicKey = ''A'', Ticket = 17, Prizes = 125, Expired = False\<rparr>]"
    by (simp add: two_tier_winners_def)
  from notifyWinners_aggregates [OF d s] have
    "notifyWinners example_world two_tier_winners =
       concat (map (\<lambda>pk. notify_entry example_world pk (total_prizes two_tier_winners pk))
         (range_order example_world (remdups (map PublicKey two_tier_winners))))"
    by blast
  then have "notifyWinners example_world two_tier_winners = [Notify 7 625]"
    by (simp add: o t n)
  with d s t f show ?thesis by blast
qed

section \<open>The eight winners of a draw\<close>

lemma getWinningTicket_window:
  assumes "2 * k + 2 \<le> length hash"
  shows "getWinningTicket hash (int (length hash) - 1 - 2 * int k) prizePool =
     Some (window_ticket hash k prizePool)"
proof -
  have a: "nat (int (length hash) - 1 - 2 * int k) = length hash - 1 - 2 * k"
    and b: "nat (int (length hash) - 1 - 2 * int k - 1) = length hash - 2 - 2 * k"
    using assms by linarith+
  have b1: "byte_at hash (int (length hash) - 1 - 2 * int k) = Some (hash ! (length hash - 1 - 2 * k))"
    using assms by (simp add: byte_at_def a)
  have b2: "byte_at hash (int (length hash) - 1 - 2 * int k - 1) = Some (hash ! (length hash - 2 - 2 * k))"
    using assms unfolding byte_at_def b by simp
  show ?thesis
    unfolding getWinningTicket_def b1 b2 by (simp add: window_ticket_def)
qed

lemma getWinners_loop_valid:
  assumes "partitions bets prizePool" and "2 * (k + length ps) \<le> length hash"
  shows "\<exists>ws'. getWinners_loop ps hash prizePool bets (int (length hash) - 1 - 2 * int k) ws =
             Some (ws @ ws')
           \<and> length ws' = length ps
           \<and> (\<forall>j < length ps.
                 Ticket (ws' ! j) = window_ticket hash (k + j) prizePool
                 \<and> getPublicKey bets (Ticket (ws' ! j)) = Some (PublicKey (ws' ! j))
                 \<and> Prizes (ws' ! j) = prize_amount (ps ! j) prizePool)"
  using assms(2)
proof (induction ps arbitrary: k ws)
  case Nil
  then show ?case by simp
next
  case (Cons p ps)
  let ?i = "int (length hash) - 1 - 2 * int k"
  let ?t = "window_ticket hash k prizePool"
  from Cons.prems have k: "2 * k + 2 \<le> length hash" by simp
  have t: "getWinningTicket hash ?i prizePool = Some ?t"
    by (rule getWinningTicket_window [OF k])
  have P0: "prizePool \<noteq> 0"
  proof
    assume z: "prizePool = 0"
    from assms(1) have s: "sorted_wrt (<) (map Index bets)" and ne: "bets \<noteq> []"
      and h: "0 < Index (hd bets)" and l: "Index (last bets) = prizePool"
      by (simp_all add: partitions_def)
    have "Index (hd bets) \<le> Index (last bets)"
    proof (cases "length bets = 1")
      case True
      then show ?thesis using ne by (cases bets) auto
    next
      case False
      with ne have "0 < length bets - 1" by (cases bets) auto
      from Index_mono [OF s this] ne show ?thesis
        by (simp add: hd_conv_nth last_conv_nth)
    qed
    with h l z show False by simp
  qed
  from getWinningTicket_range [OF P0, of ?i hash] k t
  have r: "1 \<le> ?t" "?t \<le> prizePool" by auto
  from getPublicKey_lower_bound [OF assms(1) r(2)] obtain pk where
    pk: "getPublicKey bets ?t = Some pk" by blast
  let ?x = "\<lparr>PublicKey = pk, Ticket = ?t, Prizes = prize_amount p prizePool, Expired = False\<rparr>"
  have i2: "?i - 2 = int (length hash) - 1 - 2 * int (Suc k)" by simp
  from Cons.prems have "2 * (Suc k + length ps) \<le> length hash" by simp
  from Cons.IH [OF this, of "ws @ [?x]"] obtain ws' where
    ws': "getWinners_loop ps hash prizePool bets (int (length hash) - 1 - 2 * int (Suc k)) (ws @ [?x]) =
            Some ((ws @ [?x]) @ ws')"
      "length ws' = length ps"
      "\<forall>j < length ps. Ticket (ws' ! j) = window_ticket hash (Suc k + j) prizePool
                 \<and> getPublicKey bets (Ticket (ws' ! j)) = Some (PublicKey (ws' ! j))
                 \<and> Prizes (ws' ! j) = prize_amount (ps ! j) prizePool"
    by blast
  have step: "getWinners_loop (p # ps) hash prizePool bets ?i ws = Some (ws @ (?x # ws'))"
    using t pk ws'(1) by (simp only: getWinners_loop.simps i2) simp
  have len: "length (?x # ws') = length (p # ps)" using ws'(2) by simp
  have "\<forall>j < length (p # ps).
          Ticket ((?x # ws') ! j) = window_ticket hash (k + j) prizePool
          \<and> getPublicKey bets (Ticket ((?x # ws') ! j)) = Some (PublicKey ((?x # ws') ! j))
          \<and> Prizes ((?x # ws') ! j) = prize_amount ((p # ps) ! j) prizePool"
  proof (intro allI impI)
    fix j assume "j < length (p # ps)"
    then show "Ticket ((?x # ws') ! j) = window_ticket hash (k + j) prizePool
          \<and> getPublicKey bets (Ticket ((?x # ws') ! j)) = Some (PublicKey ((?x # ws') ! j))
          \<and> Prizes ((?x # ws') ! j) = prize_amount ((p # ps) ! j) prizePool"
      using ws'(3) pk by (cases j) auto
  qed
  with step len show ?case by blast
qed

lemma byte_at_drop:
  assumes "int n \<le> i" and "n \<le> length hash"
  shows "byte_at hash i = byte_at (drop n hash) (i - int n)"
proof -
  have "n + nat (i - int n) = nat i" using assms(1) by linarith
  then show ?thesis
    using assms by (auto simp: byte_at_def)
qed

lemma getWinningTicket_drop:
  assumes "int n < i" and "n \<le> length hash"
  shows "getWinningTicket hash i prizePool = getWinningTicket (drop n hash) (i - int n) prizePool"
proof -
  have a: "byte_at hash i = byte_at (drop n hash) (i - int n)"
    using assms by (intro byte_at_drop) auto
  have "byte_at hash (i - 1) = byte_at (drop n hash) (i - 1 - int n)"
    using assms by (intro byte_at_drop) auto
  moreover have "i - 1 - int n = i - int n - 1" by simp
  ultimately have b: "byte_at hash (i - 1) = byte_at (drop n hash) (i - int n - 1)" by simp
  show ?thesis unfolding getWinningTicket_def a b ..
qed

lemma getWinners_loop_drop:
  assumes "int n + 2 * int (length ps) \<le> i + 1" and "n \<le> length hash"
  shows "getWinners_loop ps hash prizePool bets i ws =
     getWinners_loop ps (drop n hash) prizePool bets (i - int n) ws"
  using assms(1)
proof (induction ps arbitrary: i ws)
  case Nil
  then show ?case by simp
next
  case (Cons p ps)
  then have "int n < i" by simp
  from getWinningTicket_drop [OF this assms(2)]
  have t: "getWinningTicket hash i prizePool = getWinningTicket (drop n hash) (i - int n) prizePool" .
  from Cons.prems have "int n + 2 * int (length ps) \<le> (i - 2) + 1" by simp
  from Cons.IH [OF this]
  have ih: "\<And>ws. getWinners_loop ps hash prizePool bets (i - 2) ws =
     getWinners_loop ps (drop n hash) prizePool bets (i - int n - 2) ws"
    by (simp add: algebra_simps)
  show ?case
    by (simp add: t ih split: option.splits)
qed

lemma getWinners_tail:
  assumes "length hash = 32"
  shows "getWinners hash prizePool bets =
     (if length bets \<le> 0 then Some ([], None)
      else map_option (\<lambda>winners. (winners, None))
             (getWinners_loop prizes (drop 16 hash) prizePool bets 15 []))"
proof -
  have "getWinners_loop prizes hash prizePool bets 31 [] =
      getWinners_loop prizes (drop 16 hash) prizePool bets (31 - int 16) []"
    using assms by (intro getWinners_loop_drop) (simp_all add: prizes_def)
  then show ?thesis using assms by (simp add: getWinners_def)
qed

lemma prizes_descending: "sorted_wrt (>) prizes"
  by (simp add: prizes_def first_def second_def third_def fourth_def fifth_def sixth_def
      seventh_def eighth_def)

lemma example_partitions: "partitions example_bets 1000"
  by (simp add: partitions_def example_bets_def)

text \<open>
  C7, as the claim has it: every non-empty bet list gives eight winners. The search
  relies on the invariant of the bet list. With the single bet \<open>A\<close> up to 5 and a pool
  of 1000, the first ticket is 126, above every \<open>Index\<close>: the search ends with
  \<^verbatim>\<open>left = 1\<close> and \<^verbatim>\<open>bets[1]\<close> panics, so no winner is produced. The same happens with
  bets that cover the pool but are not sorted: on \<open>C\<close> up to 1000, \<open>A\<close> up to 50, \<open>B\<close> up
  to 100 the search for 126 probes \<open>A\<close>, then \<open>B\<close>, and ends with \<^verbatim>\<open>left = 3\<close>.
\<close>

theorem getWinners_panics_off_invariant:
  "length (replicate 30 (0 :: u8) @ [3, 5]) = 32
   \<and> [\<lparr>Bet.PublicKey = ''A'', Index = 5\<rparr>] \<noteq> []
   \<and> getWinners (replicate 30 0 @ [3, 5]) 1000 [\<lparr>Bet.PublicKey = ''A'', Index = 5\<rparr>] = None
   \<and> getWinners (replicate 30 0 @ [3, 5]) 1000
        [\<lparr>Bet.PublicKey = ''C'', Index = 1000\<rparr>, \<lparr>Bet.PublicKey = ''A'', Index = 50\<rparr>,
         \<lparr>Bet.PublicKey = ''B'', Index = 100\<rparr>] = None"
  by code_simp

text \<open>
  C7, amended. For bets that are sorted and partition the tickets of the pool, and a
  hash of 32 bytes, \<open>getWinners\<close> returns exactly eight winners. The winner of tier
  \<open>k\<close> has the ticket of the window \<open>k\<close> of the hash, counted from its end (tier 1 the
  last two bytes, tier 2 the two before, and so on), the public key the search finds
  for that ticket and the prize of the \<open>k\<close>-th percentage, the percentages being in
  descending order. The first 16 bytes are not read: two hashes that agree on the last
  16 bytes give the same winners. A participant can win several tiers, as \<open>A\<close> does in
  the example draw.
\<close>

theorem getWinners_eight:
  assumes "partitions bets prizePool" and "length hash = 32"
  shows "(\<exists>winners. getWinners hash prizePool bets = Some (winners, None)
            \<and> length winners = 8
            \<and> (\<forall>k < 8. Ticket (winners ! k) = window_ticket hash k prizePool
                  \<and> getPublicKey bets (Ticket (winners ! k)) = Some (PublicKey (winners ! k))
                  \<and> Prizes (winners ! k) = prize_amount (prizes ! k) prizePool))
         \<and> sorted_wrt (>) prizes
         \<and> (\<forall>hash'. length hash' = 32 \<and> drop 16 hash' = drop 16 hash \<longrightarrow>
               getWinners hash' prizePool bets = getWinners hash prizePool bets)
         \<and> (\<exists>hash' prizePool' bets' winners'.
               partitions bets' prizePool' \<and> length hash' = 32
               \<and> getWinners hash' prizePool' bets' = Some (winners', None)
               \<and> \<not> distinct (map PublicKey winners'))"
proof -
  from assms(1) have ne: "\<not> length bets \<le> 0" by (simp add: partitions_def)
  have l: "2 * (0 + length prizes) \<le> length hash"
    using assms(2) by (simp add: prizes_def)
  from getWinners_loop_valid [OF assms(1) l, of "[]"] obtain ws where
    ws: "getWinners_loop prizes hash prizePool bets (int (length hash) - 1 - 2 * int 0) [] = Some ([] @ ws)"
      "length ws = length prizes"
      "\<forall>j < length prizes. Ticket (ws ! j) = window_ticket hash (0 + j) prizePool
          \<and> getPublicKey bets (Ticket (ws ! j)) = Some (PublicKey (ws ! j))
          \<and> Prizes (ws ! j) = prize_amount (prizes ! j) prizePool"
    by blast
  have l8: "length prizes = 8" by (simp add: prizes_def)
  have g: "getWinners hash prizePool bets = Some (ws, None)"
    using ne ws(1) by (simp add: getWinners_def)
  have first: "\<exists>winners. getWinners hash prizePool bets = Some (winners, None)
            \<and> length winners = 8
            \<and> (\<forall>k < 8. Ticket (winners ! k) = window_ticket hash k prizePool
                  \<and> getPublicKey bets (Ticket (winners ! k)) = Some (PublicKey (winners ! k))
                  \<and> Prizes (winners ! k) = prize_amount (prizes ! k) prizePool)"
    using g ws(2,3) unfolding l8 by (simp only: add_0) blast
  have third: "\<forall>hash'. length hash' = 32 \<and> drop 16 hash' = drop 16 hash \<longrightarrow>
               getWinners hash' prizePool bets = getWinners hash prizePool bets"
    using assms(2) by (simp add: getWinners_tail)
  have "length (replicate 30 (0 :: u8) @ [3, 5]) = 32
      \<and> \<not> distinct (map PublicKey example_winners)"
    by (simp add: example_winners_def)
  with example_partitions example_getWinners
  have fourth: "\<exists>hash' prizePool' bets' winners'.
               partitions bets' prizePool' \<and> length hash' = 32
               \<and> getWinners hash' prizePool' bets' = Some (winners', None)
               \<and> \<not> distinct (map PublicKey winners')"
    by blast
  from first prizes_descending third fourth show ?thesis by blast
qed

theorem getWinners_eight_witness:
  "partitions example_bets 1000 \<and> length (replicate 30 (0 :: u8) @ [3, 5]) = 32
   \<and> getWinners (replicate 30 0 @ [3, 5]) 1000 example_bets = Some (example_winners, None)
   \<and> length example_winners = 8
   \<and> map PublicKey example_winners = [''B'', ''A'', ''A'', ''A'', ''A'', ''A'', ''A'', ''A'']
   \<and> getWinners (replicate 16 255 @ replicate 14 0 @ [3, 5]) 1000 example_bets =
       getWinners (replicate 30 0 @ [3, 5]) 1000 example_bets"
proof -
  have l: "length (replicate 30 (0 :: u8) @ [3, 5]) = 32" by simp
  have "length (replicate 16 (255 :: u8) @ replicate 14 0 @ [3, 5]) = 32
      \<and> drop 16 (replicate 16 (255 :: u8) @ replicate 14 0 @ [3, 5]) =
          drop 16 (replicate 30 (0 :: u8) @ [3, 5])"
    by simp
  with getWinners_eight [OF example_partitions l]
  have "getWinners (replicate 16 255 @ replicate 14 0 @ [3, 5]) 1000 example_bets =
       getWinners (replicate 30 0 @ [3, 5]) 1000 example_bets"
    by blast
  with example_partitions l example_getWinners show ?thesis
    by (simp add: example_winners_def)
qed


end
